theory Spec2Isabelle
  imports Main
begin

section \<open>quicklink: the prefetch dispatcher (src/prefetch.mjs)\<close>

text \<open>
  The module keeps one object, \<^verbatim>\<open>preFetched\<close>, and one constant chosen at load time,
  \<^verbatim>\<open>supportedPrefetchStrategy\<close>. Everything else it touches belongs to the browser:
  the document, \<^verbatim>\<open>navigator.connection\<close>, \<^verbatim>\<open>self.fetch\<close>, \<^verbatim>\<open>XMLHttpRequest\<close>. The
  browser is a record \<open>env\<close> that every call receives; what the network later answers
  to a request is part of it (\<open>on_link\<close>, \<open>on_xhr\<close>, \<open>on_fetch\<close>), so that a function of
  the model can compute how a promise settles. \<^verbatim>\<open>navigator\<close> and \<^verbatim>\<open>XMLHttpRequest\<close> are
  taken to exist, as the source takes them; \<^verbatim>\<open>document\<close> and \<^verbatim>\<open>self.fetch\<close> may be
  missing, as the source tests.
\<close>

subsection \<open>The browser\<close>

text \<open>What \<^verbatim>\<open>relList.supports(feature)\<close> does: it returns a boolean or throws.\<close>

datatype supports_result = SupportsReturns bool | SupportsThrows

text \<open>
  The document. \<open>relList_supports\<close> is \<open>None\<close> when a link element has no
  \<^verbatim>\<open>relList\<close> or its \<^verbatim>\<open>supports\<close> is not a function. \<open>has_head\<close> says whether
  \<^verbatim>\<open>getElementsByTagName(`head`)[0]\<close> is an element, \<open>has_named_script\<close> whether
  \<^verbatim>\<open>getElementsByName(`script`)[0]\<close> is one (an element whose name attribute is
  \<^verbatim>\<open>script\<close>: the source calls getElementsByName).
\<close>

record document =
  relList_supports :: "(string \<Rightarrow> supports_result) option"
  has_head :: bool
  has_named_script :: bool

text \<open>\<^verbatim>\<open>navigator.connection\<close>; \<open>effectiveType\<close> is \<open>None\<close> where the browser leaves it undefined.\<close>

record connection =
  effectiveType :: "string option"
  saveData :: bool

text \<open>
  The events a request ends with. A link element fires \<^verbatim>\<open>load\<close> or \<^verbatim>\<open>error\<close>. An
  XMLHttpRequest fires \<^verbatim>\<open>load\<close> once a response with some HTTP status has arrived, and
  \<^verbatim>\<open>error\<close> (never \<^verbatim>\<open>load\<close>) when the transport fails. \<^verbatim>\<open>fetch\<close> resolves with a response
  of any status and rejects when the transport fails.
\<close>

datatype link_event = LinkLoad | LinkError
datatype xhr_event = XhrLoad nat | XhrNetworkError
datatype fetch_event = FetchResponse nat | FetchNetworkError

text \<open>
  An anchor element, with the \<^verbatim>\<open>href\<close> it reports, and a root to search for anchors: the
  document or one of its elements. \<open>anchors_in\<close> of the browser is
  \<^verbatim>\<open>querySelectorAll('a')\<close> on such a root, in document order.
\<close>

record anchor =
  anchor_id :: nat
  href :: string

datatype scope = WholeDocument | Subtree nat

record env =
  document :: "document option"
  connection :: "connection option"
  fetch_defined :: bool
  anchors_in :: "scope \<Rightarrow> anchor list"
  on_link :: "string \<Rightarrow> link_event"
  on_xhr :: "string \<Rightarrow> xhr_event"
  on_fetch :: "string \<Rightarrow> fetch_event"

subsection \<open>Promises and what a strategy does\<close>

datatype reason = NoReason | ErrorEvent | TypeError

text \<open>A promise is resolved, rejected with a reason, or stays pending for ever.\<close>

datatype promise = Resolved | Rejected reason | Pending

datatype container = Head | ParentOfNamedScript

text \<open>What a strategy does to the browser: the link element it appends, the request it sends.\<close>

datatype effect =
    AppendLink container string string
  | XhrSend string string bool bool
  | FetchCall string string

datatype strategy = LinkPrefetch | XhrPrefetch | FetchTransport

text \<open>
  One call of a strategy: which mechanism ran, for which URL, what it did to the browser,
  and how the promise it returned settles.
\<close>

record invocation =
  strategy :: strategy
  url_of :: string
  effects :: "effect list"
  settled :: promise

subsection \<open>support\<close>

text \<open>
  A JavaScript value used as a condition: \<open>None\<close> is \<^verbatim>\<open>undefined\<close>, which \<^verbatim>\<open>support\<close>
  returns when it falls off its end.
\<close>

definition truthy :: "bool option \<Rightarrow> bool" where
  "truthy v = (case v of None \<Rightarrow> False | Some b \<Rightarrow> b)"

definition support :: "env \<Rightarrow> string \<Rightarrow> bool option" where
  "support e feature =
     (case document e of
        None \<Rightarrow> Some False
      | Some doc \<Rightarrow>
          (case relList_supports doc of
             None \<Rightarrow> None
           | Some supports \<Rightarrow>
               (case supports feature of
                  SupportsReturns b \<Rightarrow> Some b
                | SupportsThrows \<Rightarrow> Some False)))"

subsection \<open>The three strategies\<close>

text \<open>
  \<^verbatim>\<open>linkPrefetchStrategy\<close>. Without a document the executor rejects at once. With neither
  a head nor an element named \<^verbatim>\<open>script\<close>, \<^verbatim>\<open>getElementsByName(`script`)[0]\<close> is
  undefined and reading its \<^verbatim>\<open>parentNode\<close> throws a TypeError inside the promise
  executor, which rejects the promise with it; nothing is appended.
\<close>

definition link_settles :: "link_event \<Rightarrow> promise" where
  "link_settles ev = (case ev of LinkLoad \<Rightarrow> Resolved | LinkError \<Rightarrow> Rejected ErrorEvent)"

definition linkPrefetchStrategy :: "env \<Rightarrow> string \<Rightarrow> invocation" where
  "linkPrefetchStrategy e url =
     (case document e of
        None \<Rightarrow>
          \<lparr>strategy = LinkPrefetch, url_of = url, effects = [], settled = Rejected NoReason\<rparr>
      | Some doc \<Rightarrow>
          if has_head doc then
            \<lparr>strategy = LinkPrefetch, url_of = url,
             effects = [AppendLink Head ''prefetch'' url],
             settled = link_settles (on_link e url)\<rparr>
          else if has_named_script doc then
            \<lparr>strategy = LinkPrefetch, url_of = url,
             effects = [AppendLink ParentOfNamedScript ''prefetch'' url],
             settled = link_settles (on_link e url)\<rparr>
          else
            \<lparr>strategy = LinkPrefetch, url_of = url, effects = [], settled = Rejected TypeError\<rparr>)"

text \<open>
  \<^verbatim>\<open>xhrPrefetchStrategy\<close>. The request is opened with GET, asynchronous, with
  credentials. The only handler is \<^verbatim>\<open>onload\<close>: it resolves on status 200 and rejects
  on any other status. No handler is set for the \<^verbatim>\<open>error\<close> event, so when the transport
  fails neither \<^verbatim>\<open>resolve\<close> nor \<^verbatim>\<open>reject\<close> is ever called.
\<close>

definition xhr_settles :: "xhr_event \<Rightarrow> promise" where
  "xhr_settles ev =
     (case ev of
        XhrLoad status \<Rightarrow> if status = 200 then Resolved else Rejected NoReason
      | XhrNetworkError \<Rightarrow> Pending)"

definition xhrPrefetchStrategy :: "env \<Rightarrow> string \<Rightarrow> invocation" where
  "xhrPrefetchStrategy e url =
     \<lparr>strategy = XhrPrefetch, url_of = url,
      effects = [XhrSend ''GET'' url True True],
      settled = xhr_settles (on_xhr e url)\<rparr>"

text \<open>
  \<^verbatim>\<open>highPriFetchStrategy\<close>: the XHR strategy when \<^verbatim>\<open>self.fetch\<close> is undefined, and
  otherwise the promise of \<^verbatim>\<open>fetch(url, {credentials: `include`})\<close> as it is: the
  response's status is never read.
\<close>

definition fetch_settles :: "fetch_event \<Rightarrow> promise" where
  "fetch_settles ev =
     (case ev of FetchResponse status \<Rightarrow> Resolved | FetchNetworkError \<Rightarrow> Rejected TypeError)"

definition highPriFetchStrategy :: "env \<Rightarrow> string \<Rightarrow> invocation" where
  "highPriFetchStrategy e url =
     (if \<not> fetch_defined e then xhrPrefetchStrategy e url
      else
        \<lparr>strategy = FetchTransport, url_of = url,
         effects = [FetchCall url ''include''],
         settled = fetch_settles (on_fetch e url)\<rparr>)"

subsection \<open>The module's state\<close>

text \<open>
  \<^verbatim>\<open>supportedPrefetchStrategy\<close> holds one of two functions; the model holds its name and
  \<open>call_supported\<close> calls the function the name stands for.
\<close>

datatype supported = LinkPrefetchStrategy | XhrPrefetchStrategy

definition call_supported :: "supported \<Rightarrow> env \<Rightarrow> string \<Rightarrow> invocation" where
  "call_supported s e url =
     (case s of
        LinkPrefetchStrategy \<Rightarrow> linkPrefetchStrategy e url
      | XhrPrefetchStrategy \<Rightarrow> xhrPrefetchStrategy e url)"

text \<open>
  \<open>preFetched\<close> is the set of keys the module has set to \<^verbatim>\<open>true\<close> on its object.
  \<open>invocations\<close> is not in the source: it is the history of the strategy calls made so
  far, kept so that theorems can count them.
\<close>

record module_state =
  preFetched :: "string set"
  supportedPrefetchStrategy :: supported
  invocations :: "invocation list"

text \<open>
  \<^verbatim>\<open>preFetched\<close> is created as \<^verbatim>\<open>{}\<close>, an ordinary object, so reading
  \<^verbatim>\<open>preFetched[url]\<close> also finds what Object.prototype holds under that name, and each of
  these is a function or an object, hence truthy.
\<close>

definition Object_prototype_keys :: "string list" where
  "Object_prototype_keys =
     [''constructor'', ''hasOwnProperty'', ''isPrototypeOf'', ''propertyIsEnumerable'',
      ''toLocaleString'', ''toString'', ''valueOf'', ''__proto__'',
      ''__defineGetter__'', ''__defineSetter__'', ''__lookupGetter__'', ''__lookupSetter__'']"

definition is_prefetched :: "module_state \<Rightarrow> string \<Rightarrow> bool" where
  "is_prefetched st url = (url \<in> preFetched st \<or> url \<in> set Object_prototype_keys)"

text \<open>The module's top level: the empty object and the strategy chosen by probing once.\<close>

definition init :: "env \<Rightarrow> module_state" where
  "init e =
     \<lparr>preFetched = {},
      supportedPrefetchStrategy =
        (if truthy (support e ''prefetch'') then LinkPrefetchStrategy else XhrPrefetchStrategy),
      invocations = []\<rparr>"

subsection \<open>prefetcher\<close>

text \<open>\<^verbatim>\<open>String.prototype.includes\<close>: does \<open>sub\<close> occur in \<open>s\<close> as a contiguous part.\<close>

fun js_includes :: "string \<Rightarrow> string \<Rightarrow> bool" where
  "js_includes [] sub = (sub = [])"
| "js_includes (c # cs) sub = (take (length sub) (c # cs) = sub \<or> js_includes cs sub)"

text \<open>The two tests under \<^verbatim>\<open>'connection' in navigator\<close>, in the source's order.\<close>

definition gated :: "env \<Rightarrow> bool" where
  "gated e =
     (case connection e of
        None \<Rightarrow> False
      | Some c \<Rightarrow>
          if js_includes (case effectiveType c of None \<Rightarrow> [] | Some t \<Rightarrow> t) ''2g'' then True
          else if saveData c then True
          else False)"

text \<open>
  \<^verbatim>\<open>prefetcher\<close> is an async function. Up to its \<^verbatim>\<open>await\<close> it runs in the caller's
  turn: the two guards, then the call of the chosen strategy. \<open>prefetcher_begin\<close> is that
  part; it returns \<open>None\<close> when a guard returned, and the strategy's call when the
  function is now waiting for its promise.
\<close>

definition prefetcher_begin ::
  "env \<Rightarrow> module_state \<Rightarrow> string \<Rightarrow> string option \<Rightarrow> module_state \<times> invocation option" where
  "prefetcher_begin e st url priority =
     (if is_prefetched st url then (st, None)
      else if gated e then (st, None)
      else
        let call = (if priority = Some ''high'' then highPriFetchStrategy e url
                   else call_supported (supportedPrefetchStrategy st) e url)
        in (st\<lparr>invocations := invocations st @ [call]\<rparr>, Some call))"

text \<open>
  The rest of the function runs when the awaited promise settles: after a resolution
  \<^verbatim>\<open>preFetched[url] = true\<close>, after a rejection the empty \<^verbatim>\<open>catch\<close>. Either way the
  function's own promise resolves. While the awaited promise is pending the function has
  not returned.
\<close>

definition prefetcher_resume :: "module_state \<Rightarrow> string \<Rightarrow> promise \<Rightarrow> module_state \<times> promise" where
  "prefetcher_resume st url p =
     (case p of
        Resolved \<Rightarrow> (st\<lparr>preFetched := insert url (preFetched st)\<rparr>, Resolved)
      | Rejected r \<Rightarrow> (st, Resolved)
      | Pending \<Rightarrow> (st, Pending))"

text \<open>
  A call that is awaited: the state when the function's promise has settled (or, if it
  never does, the state it leaves), and that promise.
\<close>

definition prefetcher ::
  "env \<Rightarrow> module_state \<Rightarrow> string \<Rightarrow> string option \<Rightarrow> module_state \<times> promise" where
  "prefetcher e st url priority =
     (case prefetcher_begin e st url priority of
        (st1, None) \<Rightarrow> (st1, Resolved)
      | (st1, Some call) \<Rightarrow> prefetcher_resume st1 url (settled call))"

text \<open>A history of awaited calls, one after the other, each in the browser of its moment.\<close>

fun replay :: "module_state \<Rightarrow> (env \<times> string \<times> string option) list \<Rightarrow> module_state" where
  "replay st [] = st"
| "replay st ((e, url, priority) # calls) = replay (fst (prefetcher e st url priority)) calls"

text \<open>How many strategy calls the history holds for one URL.\<close>

definition invocations_for :: "module_state \<Rightarrow> string \<Rightarrow> nat" where
  "invocations_for st url = length (filter (\<lambda>i. url_of i = url) (invocations st))"

section \<open>quicklink: the entry point and the visibility scheduler (src/index.mjs)\<close>

subsection \<open>The Map of loader functions\<close>

text \<open>
  \<^verbatim>\<open>loaderFunctions\<close> is a JavaScript Map from URL to function, here the list of its
  entries in insertion order. \<^verbatim>\<open>set\<close> replaces the value of a key that is present, in
  place, and appends a new key at the end.
\<close>

fun Map_has :: "(string \<times> 'v) list \<Rightarrow> string \<Rightarrow> bool" where
  "Map_has [] k = False"
| "Map_has ((k', v) # m) k = (if k' = k then True else Map_has m k)"

fun Map_get :: "(string \<times> 'v) list \<Rightarrow> string \<Rightarrow> 'v option" where
  "Map_get [] k = None"
| "Map_get ((k', v) # m) k = (if k' = k then Some v else Map_get m k)"

fun Map_set :: "(string \<times> 'v) list \<Rightarrow> string \<Rightarrow> 'v \<Rightarrow> (string \<times> 'v) list" where
  "Map_set [] k v = [(k, v)]"
| "Map_set ((k', v') # m) k v = (if k' = k then (k, v) # m else (k', v') # Map_set m k v)"

fun Map_delete :: "(string \<times> 'v) list \<Rightarrow> string \<Rightarrow> (string \<times> 'v) list" where
  "Map_delete [] k = []"
| "Map_delete ((k', v) # m) k = (if k' = k then Map_delete m k else (k', v) # Map_delete m k)"

subsection \<open>The page's state\<close>

text \<open>
  A loader function is the closure \<^verbatim>\<open>() => { loaderFunctions.delete(url); prefetch(url,
  options.priority); }\<close>: the URL and the priority it has captured.
\<close>

datatype loader = Loader string string

text \<open>An IntersectionObserverEntry: the two fields the callback reads.\<close>

record entry =
  isIntersecting :: bool
  entry_target :: anchor

text \<open>
  \<open>loaderFunctions\<close> and \<open>observed\<close> (the observer's targets) are index.mjs's own;
  \<open>dispatcher\<close> is the state of prefetch.mjs. index.mjs never awaits \<^verbatim>\<open>prefetch\<close>:
  \<open>waiting\<close> holds the calls that stopped at their \<^verbatim>\<open>await\<close>, each with its URL and the
  promise it waits for. \<open>dispatched\<close> is not in the source: it is the history of the
  calls of \<^verbatim>\<open>prefetch\<close>, with their arguments.
\<close>

record page_state =
  loaderFunctions :: "(string \<times> loader) list"
  observed :: "anchor list"
  dispatcher :: module_state
  waiting :: "(string \<times> promise) list"
  dispatched :: "(string \<times> string) list"

definition page_init :: "env \<Rightarrow> page_state" where
  "page_init e =
     \<lparr>loaderFunctions = [], observed = [], dispatcher = init e, waiting = [], dispatched = []\<rparr>"

text \<open>
  A call \<^verbatim>\<open>prefetch(url, priority)\<close> that nobody awaits: the part of \<^verbatim>\<open>prefetcher\<close>
  before its \<^verbatim>\<open>await\<close> runs now, the rest when the promise settles (\<open>settle\<close>).
\<close>

definition prefetch :: "env \<Rightarrow> page_state \<Rightarrow> string \<Rightarrow> string \<Rightarrow> page_state" where
  "prefetch e st url pri =
     (case prefetcher_begin e (dispatcher st) url (Some pri) of
        (m, None) \<Rightarrow>
          st\<lparr>dispatcher := m, dispatched := dispatched st @ [(url, pri)]\<rparr>
      | (m, Some call) \<Rightarrow>
          st\<lparr>dispatcher := m,
             waiting := waiting st @ [(url, settled call)],
             dispatched := dispatched st @ [(url, pri)]\<rparr>)"

text \<open>
  The promise of the \<open>n\<close>-th waiting call settles and the call runs to its end. A promise
  that stays pending leaves its call waiting.
\<close>

definition settle :: "nat \<Rightarrow> page_state \<Rightarrow> page_state" where
  "settle n st =
     (if n < length (waiting st) then
        (case waiting st ! n of
           (url, p) \<Rightarrow>
             if p = Pending then st
             else st\<lparr>dispatcher := fst (prefetcher_resume (dispatcher st) url p),
                     waiting := take n (waiting st) @ drop (Suc n) (waiting st)\<rparr>)
      else st)"

subsection \<open>The observer\<close>

text \<open>Calling a loader function: it deletes the entry of its URL, then calls \<^verbatim>\<open>prefetch\<close>.\<close>

fun call_loader :: "env \<Rightarrow> page_state \<Rightarrow> loader \<Rightarrow> page_state" where
  "call_loader e st (Loader url pri) =
     prefetch e (st\<lparr>loaderFunctions := Map_delete (loaderFunctions st) url\<rparr>) url pri"

text \<open>The body of the callback's \<^verbatim>\<open>forEach\<close>, for one intersecting entry.\<close>

definition on_intersecting :: "env \<Rightarrow> entry \<Rightarrow> page_state \<Rightarrow> page_state" where
  "on_intersecting e en st =
     (let url = href (entry_target en) in
      if \<not> Map_has (loaderFunctions st) url then st
      else (case Map_get (loaderFunctions st) url of
              None \<Rightarrow> st
            | Some f \<Rightarrow> call_loader e st f))"

definition observer_callback :: "env \<Rightarrow> page_state \<Rightarrow> entry list \<Rightarrow> page_state" where
  "observer_callback e st entries = fold (on_intersecting e) (filter isIntersecting entries) st"

text \<open>\<^verbatim>\<open>observer.observe(link)\<close>: an element that is already a target is not added again.\<close>

definition observe :: "anchor \<Rightarrow> page_state \<Rightarrow> page_state" where
  "observe link st =
     (if link \<in> set (observed st) then st else st\<lparr>observed := observed st @ [link]\<rparr>)"

subsection \<open>The entry point\<close>

text \<open>
  What the caller may pass (\<open>None\<close>: the key is absent) and the options after the merge
  with the defaults. \<^verbatim>\<open>timeoutFn\<close> is left out of both records: it decides when the
  callback runs, not what the callback does, and \<open>quicklink\<close> below returns what the
  entry point hands to it.
\<close>

record given_options =
  given_urls :: "string list option"
  given_el :: "scope option"
  given_priority :: "string option"
  given_timeout :: "nat option"

record options =
  urls :: "string list option"
  el :: scope
  priority :: string
  timeout :: nat

definition merge_options :: "given_options \<Rightarrow> options" where
  "merge_options g =
     \<lparr>urls = given_urls g,
      el = (case given_el g of None \<Rightarrow> WholeDocument | Some s \<Rightarrow> s),
      priority = (case given_priority g of None \<Rightarrow> ''low'' | Some p \<Rightarrow> p),
      timeout = (case given_timeout g of None \<Rightarrow> 2000 | Some t \<Rightarrow> t)\<rparr>"

text \<open>
  The body of the last \<^verbatim>\<open>forEach\<close>: \<^verbatim>\<open>loaderFunctions.set(url, ...)\<close> with a new loader
  function for the URL and the options' priority.
\<close>

definition register_loader :: "string \<Rightarrow> string \<Rightarrow> page_state \<Rightarrow> page_state" where
  "register_loader pri url st =
     st\<lparr>loaderFunctions := Map_set (loaderFunctions st) url (Loader url pri)\<rparr>"

text \<open>
  The callback handed to \<^verbatim>\<open>timeoutFn\<close>, one scheduling pass. \<open>found\<close> is the source's
  local \<^verbatim>\<open>urls\<close>, the \<^verbatim>\<open>href\<close> of every anchor found.
\<close>

definition scheduling_pass :: "env \<Rightarrow> options \<Rightarrow> page_state \<Rightarrow> page_state" where
  "scheduling_pass e opts st =
     (case urls opts of
        Some us \<Rightarrow> fold (\<lambda>url s. prefetch e s url (priority opts)) us st
      | None \<Rightarrow>
          let linkTags = anchors_in e (el opts);
              st1 = fold observe linkTags st;
              found = map href linkTags
          in fold (register_loader (priority opts)) found st1)"

text \<open>
  The entry point merges the options and calls \<^verbatim>\<open>options.timeoutFn(callback, {timeout:
  options.timeout})\<close>; the model returns the two arguments of that call. The callback runs
  in the browser of the moment \<^verbatim>\<open>timeoutFn\<close> chooses.
\<close>

definition quicklink :: "given_options \<Rightarrow> (env \<Rightarrow> page_state \<Rightarrow> page_state) \<times> nat" where
  "quicklink g =
     (let opts = merge_options g in (\<lambda>e. scheduling_pass e opts, timeout opts))"

subsection \<open>The life of a page\<close>

text \<open>
  After the modules are loaded the page's state changes in three ways only: a scheduling
  pass runs, the browser delivers intersection entries to the observer, or an awaited
  promise settles.
\<close>

datatype page_event = Pass env options | Notify env "entry list" | Settle nat

fun step :: "page_event \<Rightarrow> page_state \<Rightarrow> page_state" where
  "step (Pass e opts) st = scheduling_pass e opts st"
| "step (Notify e entries) st = observer_callback e st entries"
| "step (Settle n) st = settle n st"

definition run :: "page_event list \<Rightarrow> page_state \<Rightarrow> page_state" where
  "run evs st = fold step evs st"

text \<open>How many times \<^verbatim>\<open>prefetch\<close> has been called for one URL.\<close>

definition dispatches_for :: "page_state \<Rightarrow> string \<Rightarrow> nat" where
  "dispatches_for st url = length (filter (\<lambda>d. fst d = url) (dispatched st))"

subsection \<open>Predicates for the registry's invariant\<close>

text \<open>
  These are not in the source; the theorems about \<^verbatim>\<open>loaderFunctions\<close> are stated with
  them. A registry is in order when no key occurs twice and every loader function
  stands under the URL it has captured. \<open>pending_for\<close> counts the live entry of a URL.
\<close>

fun loader_url :: "loader \<Rightarrow> string" where
  "loader_url (Loader url pri) = url"

definition registry_ok :: "(string \<times> loader) list \<Rightarrow> bool" where
  "registry_ok reg =
     (distinct (map fst reg) \<and> list_all (\<lambda>kv. loader_url (snd kv) = fst kv) reg)"

fun is_pass :: "page_event \<Rightarrow> bool" where
  "is_pass (Pass e opts) = True"
| "is_pass (Notify e entries) = False"
| "is_pass (Settle n) = False"

definition pending_for :: "page_state \<Rightarrow> string \<Rightarrow> nat" where
  "pending_for st url = (if Map_has (loaderFunctions st) url then 1 else 0)"

section \<open>Sample browsers\<close>

text \<open>
  Concrete browsers on which the theorems below are run. \<open>sample_env\<close> is a current
  browser on a fast connection where every request succeeds; the others differ from it
  in one respect each.
\<close>

definition sample_document :: document where
  "sample_document =
     \<lparr>relList_supports = Some (\<lambda>feature. SupportsReturns (feature = ''prefetch'')),
      has_head = True, has_named_script = False\<rparr>"

definition sample_env :: env where
  "sample_env =
     \<lparr>document = Some sample_document,
      connection = Some \<lparr>effectiveType = Some ''4g'', saveData = False\<rparr>,
      fetch_defined = True,
      anchors_in = (\<lambda>s. []),
      on_link = (\<lambda>u. LinkLoad),
      on_xhr = (\<lambda>u. XhrLoad 200),
      on_fetch = (\<lambda>u. FetchResponse 200)\<rparr>"

definition slow_env :: env where
  "slow_env =
     sample_env\<lparr>connection := Some \<lparr>effectiveType = Some ''slow-2g'', saveData = False\<rparr>\<rparr>"

definition failing_env :: env where
  "failing_env = sample_env\<lparr>on_link := (\<lambda>u. LinkError)\<rparr>"

definition offline_env :: env where
  "offline_env = sample_env\<lparr>on_xhr := (\<lambda>u. XhrNetworkError)\<rparr>"

definition headless_env :: env where
  "headless_env = sample_env\<lparr>document := Some (sample_document\<lparr>has_head := False\<rparr>)\<rparr>"

definition not_found_env :: env where
  "not_found_env =
     sample_env\<lparr>on_fetch := (\<lambda>u. FetchResponse 404), on_xhr := (\<lambda>u. XhrLoad 404)\<rparr>"

definition legacy_env :: env where
  "legacy_env = sample_env\<lparr>document := None, fetch_defined := False\<rparr>"

text \<open>
  A page with three anchors, two of them the same element, and the entries and options
  used below. \<open>registered\<close> is the page after one scheduling pass with the default
  options.
\<close>

definition link_a :: anchor where
  "link_a = \<lparr>anchor_id = 1, href = ''/a''\<rparr>"

definition link_b :: anchor where
  "link_b = \<lparr>anchor_id = 2, href = ''/b''\<rparr>"

definition page_env :: env where
  "page_env = sample_env\<lparr>anchors_in := (\<lambda>s. [link_a, link_a, link_b])\<rparr>"

definition no_options :: given_options where
  "no_options = \<lparr>given_urls = None, given_el = None, given_priority = None, given_timeout = None\<rparr>"

definition seen_a :: entry where
  "seen_a = \<lparr>isIntersecting = True, entry_target = link_a\<rparr>"

definition registered :: page_state where
  "registered = run [Pass page_env (merge_options no_options)] (page_init page_env)"

definition urls_given :: given_options where
  "urls_given = no_options\<lparr>given_urls := Some [''/a'', ''/b''], given_el := Some (Subtree 7)\<rparr>"

section \<open>Properties of the dispatcher\<close>

lemmas dispatcher_defs =
  init_def support_def prefetcher_def prefetcher_begin_def prefetcher_resume_def gated_def
  is_prefetched_def Object_prototype_keys_def call_supported_def linkPrefetchStrategy_def
  xhrPrefetchStrategy_def highPriFetchStrategy_def link_settles_def xhr_settles_def
  fetch_settles_def Let_def

lemma truthy_simps [simp]: "truthy None = False" "truthy (Some b) = b"
  by (simp_all add: truthy_def)

subsection \<open>The substring test and the gate\<close>

lemma js_includes_iff: "js_includes s sub \<longleftrightarrow> (\<exists>a b. s = a @ sub @ b)"
proof (induction s)
  case Nil
  then show ?case by auto
next
  case (Cons c cs)
  show ?case
  proof
    assume "js_includes (c # cs) sub"
    then consider "take (length sub) (c # cs) = sub" | "js_includes cs sub" by auto
    then show "\<exists>a b. c # cs = a @ sub @ b"
    proof cases
      case 1
      then have "c # cs = [] @ sub @ drop (length sub) (c # cs)"
        by (metis append_Nil append_take_drop_id)
      then show ?thesis by blast
    next
      case 2
      then obtain a b where "cs = a @ sub @ b" using Cons.IH by blast
      then have "c # cs = (c # a) @ sub @ b" by simp
      then show ?thesis by blast
    qed
  next
    assume "\<exists>a b. c # cs = a @ sub @ b"
    then obtain a b where ab: "c # cs = a @ sub @ b" by blast
    show "js_includes (c # cs) sub"
    proof (cases a)
      case Nil
      then have "take (length sub) (c # cs) = sub" using ab by simp
      then show ?thesis by simp
    next
      case (Cons x a')
      then have "cs = a' @ sub @ b" using ab by simp
      then have "js_includes cs sub" using Cons.IH by blast
      then show ?thesis by simp
    qed
  qed
qed

lemma url_of_link [simp]: "url_of (linkPrefetchStrategy e u) = u"
  by (simp add: linkPrefetchStrategy_def split: option.split)

lemma url_of_xhr [simp]: "url_of (xhrPrefetchStrategy e u) = u"
  by (simp add: xhrPrefetchStrategy_def)

lemma url_of_highPri [simp]: "url_of (highPriFetchStrategy e u) = u"
  by (simp add: highPriFetchStrategy_def)

lemma url_of_supported [simp]: "url_of (call_supported s e u) = u"
  by (simp add: call_supported_def split: supported.split)

lemma gated_iff:
  "gated e \<longleftrightarrow> (\<exists>c. connection e = Some c \<and>
      ((\<exists>a b. effectiveType c = Some (a @ ''2g'' @ b)) \<or> saveData c))"
  by (auto simp: gated_def js_includes_iff split: option.splits)

subsection \<open>The two phases of prefetcher\<close>

lemma prefetcher_guarded:
  "is_prefetched st u \<or> gated e \<Longrightarrow> prefetcher e st u p = (st, Resolved)"
  by (auto simp: prefetcher_def prefetcher_begin_def)

lemma prefetcher_begin_guarded:
  "is_prefetched st u \<or> gated e \<Longrightarrow> prefetcher_begin e st u p = (st, None)"
  by (auto simp: prefetcher_begin_def)

lemma prefetcher_begin_open:
  "\<not> is_prefetched st u \<Longrightarrow> \<not> gated e \<Longrightarrow>
   \<exists>call. prefetcher_begin e st u p = (st\<lparr>invocations := invocations st @ [call]\<rparr>, Some call)
     \<and> url_of call = u"
  by (simp add: prefetcher_begin_def Let_def)

lemma prefetcher_begin_cases:
  assumes "prefetcher_begin e st u p = (st1, r)"
  obtains (guard) "is_prefetched st u \<or> gated e" "st1 = st" "r = None"
  | (invoke) call where "\<not> is_prefetched st u" "\<not> gated e" "r = Some call" "url_of call = u"
      "st1 = st\<lparr>invocations := invocations st @ [call]\<rparr>"
  using assms by (auto simp: prefetcher_begin_def Let_def split: if_splits)

lemma is_prefetched_invocations [simp]:
  "is_prefetched (st\<lparr>invocations := h\<rparr>) u = is_prefetched st u"
  by (simp add: is_prefetched_def)

lemma is_prefetched_insert [simp]:
  "is_prefetched (st\<lparr>preFetched := insert u (preFetched st)\<rparr>) u"
  by (simp add: is_prefetched_def)

lemma prefetcher_cases:
  assumes "prefetcher e st u p = (st1, r1)"
  obtains (guard) "is_prefetched st u \<or> gated e" "st1 = st" "r1 = Resolved"
  | (invoke) call where "\<not> is_prefetched st u" "\<not> gated e" "url_of call = u"
      "call = (if p = Some ''high'' then highPriFetchStrategy e u
               else call_supported (supportedPrefetchStrategy st) e u)"
      "(st1, r1) = prefetcher_resume (st\<lparr>invocations := invocations st @ [call]\<rparr>) u (settled call)"
  using assms
  by (auto simp: prefetcher_def prefetcher_begin_def Let_def split: if_splits)

lemma resume_invocations [simp]:
  "invocations (fst (prefetcher_resume st u q)) = invocations st"
  by (simp add: prefetcher_resume_def split: promise.split)

lemma resume_supported [simp]:
  "supportedPrefetchStrategy (fst (prefetcher_resume st u q)) = supportedPrefetchStrategy st"
  by (simp add: prefetcher_resume_def split: promise.split)

lemma resume_preFetched:
  "preFetched (fst (prefetcher_resume st u q)) =
     (if q = Resolved then insert u (preFetched st) else preFetched st)"
  by (simp add: prefetcher_resume_def split: promise.split)

lemma resume_result:
  "snd (prefetcher_resume st u q) = (if q = Pending then Pending else Resolved)"
  by (simp add: prefetcher_resume_def split: promise.split)

lemma prefetcher_invoked:
  assumes "prefetcher e st u p = (st1, r1)" and "invocations st1 = invocations st @ [call]"
  shows "\<not> is_prefetched st u" and "\<not> gated e" and "url_of call = u"
    and "call = (if p = Some ''high'' then highPriFetchStrategy e u
                 else call_supported (supportedPrefetchStrategy st) e u)"
    and "preFetched st1 = (if settled call = Resolved then insert u (preFetched st) else preFetched st)"
    and "r1 = (if settled call = Pending then Pending else Resolved)"
    and "supportedPrefetchStrategy st1 = supportedPrefetchStrategy st"
proof -
  from assms(1) have
    "\<not> is_prefetched st u \<and> \<not> gated e \<and> url_of call = u
     \<and> call = (if p = Some ''high'' then highPriFetchStrategy e u
                 else call_supported (supportedPrefetchStrategy st) e u)
     \<and> preFetched st1 = (if settled call = Resolved then insert u (preFetched st) else preFetched st)
     \<and> r1 = (if settled call = Pending then Pending else Resolved)
     \<and> supportedPrefetchStrategy st1 = supportedPrefetchStrategy st"
  proof (cases rule: prefetcher_cases)
    case guard
    then show ?thesis using assms(2) by simp
  next
    case (invoke c)
    from invoke(5) have st1: "st1 = fst (prefetcher_resume (st\<lparr>invocations := invocations st @ [c]\<rparr>) u (settled c))"
      and r1: "r1 = snd (prefetcher_resume (st\<lparr>invocations := invocations st @ [c]\<rparr>) u (settled c))"
      by (metis fst_conv, metis snd_conv)
    have "invocations st1 = invocations st @ [c]" using st1 by simp
    then have c: "c = call" using assms(2) by simp
    show ?thesis
      using invoke(1-4) c st1 r1 by (simp add: resume_preFetched resume_result)
  qed
  then show "\<not> is_prefetched st u" and "\<not> gated e" and "url_of call = u"
    and "call = (if p = Some ''high'' then highPriFetchStrategy e u
                 else call_supported (supportedPrefetchStrategy st) e u)"
    and "preFetched st1 = (if settled call = Resolved then insert u (preFetched st) else preFetched st)"
    and "r1 = (if settled call = Pending then Pending else Resolved)"
    and "supportedPrefetchStrategy st1 = supportedPrefetchStrategy st"
    by blast+
qed

lemma prefetcher_open:
  assumes "\<not> is_prefetched st u" and "\<not> gated e"
  shows "prefetcher e st u p =
     prefetcher_resume
       (st\<lparr>invocations := invocations st @
          [if p = Some ''high'' then highPriFetchStrategy e u
           else call_supported (supportedPrefetchStrategy st) e u]\<rparr>) u
       (settled (if p = Some ''high'' then highPriFetchStrategy e u
           else call_supported (supportedPrefetchStrategy st) e u))"
  using assms by (simp add: prefetcher_def prefetcher_begin_def Let_def)

lemma prefetcher_grows: "preFetched st \<subseteq> preFetched (fst (prefetcher e st u p))"
  by (auto simp: prefetcher_def prefetcher_begin_def prefetcher_resume_def Let_def
      split: promise.split)

lemma replay_grows: "preFetched st \<subseteq> preFetched (replay st calls)"
proof (induction calls arbitrary: st)
  case Nil
  then show ?case by simp
next
  case (Cons c calls)
  obtain e u p where c: "c = (e, u, p)" by (cases c)
  have "preFetched st \<subseteq> preFetched (fst (prefetcher e st u p))" by (rule prefetcher_grows)
  also have "\<dots> \<subseteq> preFetched (replay (fst (prefetcher e st u p)) calls)" by (rule Cons.IH)
  finally show ?case using c by simp
qed

lemma xhr_contract:
  "effects (xhrPrefetchStrategy e u) = [XhrSend ''GET'' u True True]
   \<and> (settled (xhrPrefetchStrategy e u) = Resolved \<longleftrightarrow> on_xhr e u = XhrLoad 200)
   \<and> ((\<exists>r. settled (xhrPrefetchStrategy e u) = Rejected r)
        \<longleftrightarrow> (\<exists>status. on_xhr e u = XhrLoad status \<and> status \<noteq> 200))
   \<and> (settled (xhrPrefetchStrategy e u) = Pending \<longleftrightarrow> on_xhr e u = XhrNetworkError)"
  by (auto simp: xhrPrefetchStrategy_def xhr_settles_def split: xhr_event.splits)

lemma strategy_simps [simp]:
  "strategy (linkPrefetchStrategy e u) = LinkPrefetch"
  "strategy (xhrPrefetchStrategy e u) = XhrPrefetch"
  "strategy (highPriFetchStrategy e u) = (if fetch_defined e then FetchTransport else XhrPrefetch)"
  by (simp_all add: linkPrefetchStrategy_def xhrPrefetchStrategy_def highPriFetchStrategy_def
      split: option.split)

lemma prefetcher_supported [simp]:
  "supportedPrefetchStrategy (fst (prefetcher e st u p)) = supportedPrefetchStrategy st"
  by (simp add: prefetcher_def prefetcher_begin_def Let_def)

lemma replay_supported [simp]:
  "supportedPrefetchStrategy (replay st calls) = supportedPrefetchStrategy st"
  by (induction st calls rule: replay.induct) simp_all

lemma prefetcher_history:
  "\<not> is_prefetched st u \<Longrightarrow> \<not> gated e \<Longrightarrow>
   invocations (fst (prefetcher e st u p)) =
     invocations st @ [if p = Some ''high'' then highPriFetchStrategy e u
                       else call_supported (supportedPrefetchStrategy st) e u]"
  by (simp add: prefetcher_open)


section \<open>The claims about the dispatcher\<close>

text \<open>
  C1 (dedup). Let a first awaited call of \<open>prefetcher\<close> for \<open>u\<close> have called a strategy
  (the history grew by \<open>call\<close>) whose promise resolved. Then a second call for \<open>u\<close>, in
  any browser and with any priority, returns at its first guard: the state is the one
  the first call left, no strategy is called, and over the two calls the history holds
  exactly one more strategy call for \<open>u\<close> than before.
\<close>

theorem prefetcher_dedup:
  assumes "prefetcher e1 st u p1 = (st1, r1)"
    and "invocations st1 = invocations st @ [call]"
    and "settled call = Resolved"
  shows "prefetcher e2 st1 u p2 = (st1, Resolved)
     \<and> prefetcher_begin e2 st1 u p2 = (st1, None)
     \<and> invocations_for (fst (prefetcher e2 st1 u p2)) u = invocations_for st u + 1"
proof -
  obtain st' r where b: "prefetcher_begin e1 st u p1 = (st', r)" by force
  from b show ?thesis
  proof (cases rule: prefetcher_begin_cases)
    case guard
    then have "st1 = st" using assms(1) b by (simp add: prefetcher_def)
    then show ?thesis using assms(2) by simp
  next
    case (invoke c)
    have st1: "st1 = fst (prefetcher_resume st' u (settled c))"
      using assms(1) b invoke by (simp add: prefetcher_def)
    have inv1: "invocations st1 = invocations st @ [c]"
      using st1 invoke by (simp add: prefetcher_resume_def split: promise.split)
    then have "c = call" using assms(2) by simp
    then have marked: "st1 = st'\<lparr>preFetched := insert u (preFetched st')\<rparr>"
      using st1 assms(3) by (simp add: prefetcher_resume_def)
    then have pf: "is_prefetched st1 u" by simp
    have n: "invocations_for st1 u = invocations_for st u + 1"
      using inv1 invoke by (simp add: invocations_for_def)
    show ?thesis
      using pf n by (simp add: prefetcher_guarded prefetcher_begin_guarded)
  qed
qed

theorem prefetcher_dedup_witness:
  "prefetcher sample_env (fst (prefetcher sample_env (init sample_env) ''/a'' None)) ''/a'' (Some ''high'')
     = (fst (prefetcher sample_env (init sample_env) ''/a'' None), Resolved)
   \<and> invocations_for
        (fst (prefetcher sample_env (fst (prefetcher sample_env (init sample_env) ''/a'' None))
           ''/a'' (Some ''high''))) ''/a'' = 1"
proof -
  have h1: "prefetcher sample_env (init sample_env) ''/a'' None =
      (fst (prefetcher sample_env (init sample_env) ''/a'' None),
       snd (prefetcher sample_env (init sample_env) ''/a'' None))"
    by simp
  have h2: "invocations (fst (prefetcher sample_env (init sample_env) ''/a'' None)) =
      invocations (init sample_env) @ [linkPrefetchStrategy sample_env ''/a'']"
    by (simp add: sample_env_def sample_document_def dispatcher_defs)
  have h3: "settled (linkPrefetchStrategy sample_env ''/a'') = Resolved"
    by (simp add: sample_env_def sample_document_def dispatcher_defs)
  have h4: "invocations_for (init sample_env) ''/a'' = 0"
    by (simp add: invocations_for_def init_def)
  from prefetcher_dedup [OF h1 h2 h3, of sample_env "Some ''high''"] h4 show ?thesis
    by auto
qed

text \<open>
  C2 (gating). When \<^verbatim>\<open>navigator.connection\<close> exists and its effective type contains
  \<^verbatim>\<open>2g\<close>, or its \<^verbatim>\<open>saveData\<close> is set, a call of \<open>prefetcher\<close> for any URL returns with
  the state unchanged: no strategy is called and the URL is not marked, so a later call
  finds it as this one did.
\<close>

theorem prefetcher_gating:
  assumes "connection e = Some c"
    and "(\<exists>a b. effectiveType c = Some (a @ ''2g'' @ b)) \<or> saveData c"
  shows "prefetcher e st u p = (st, Resolved) \<and> prefetcher_begin e st u p = (st, None)"
proof -
  have "gated e" using assms gated_iff by blast
  then show ?thesis by (simp add: prefetcher_guarded prefetcher_begin_guarded)
qed

theorem prefetcher_gating_witness:
  "prefetcher slow_env (init slow_env) ''/a'' None = (init slow_env, Resolved)
   \<and> prefetcher_begin slow_env (init slow_env) ''/a'' None = (init slow_env, None)"
proof -
  have h1: "connection slow_env = Some \<lparr>effectiveType = Some ''slow-2g'', saveData = False\<rparr>"
    by (simp add: slow_env_def sample_env_def)
  have "effectiveType \<lparr>effectiveType = Some ''slow-2g'', saveData = False\<rparr>
          = Some (''slow-'' @ ''2g'' @ '''')"
    by simp
  then have h2: "(\<exists>a b. effectiveType \<lparr>effectiveType = Some ''slow-2g'', saveData = False\<rparr>
          = Some (a @ ''2g'' @ b)) \<or> saveData \<lparr>effectiveType = Some ''slow-2g'', saveData = False\<rparr>"
    by blast
  from prefetcher_gating [OF h1 h2] show ?thesis .
qed

text \<open>
  C3 (failure handling). Let a call of \<open>prefetcher\<close> for \<open>u\<close> have called a strategy. If
  the strategy's promise is rejected, the call's own promise still resolves (nothing
  reaches the caller), \<open>u\<close> is not marked and \<open>preFetched\<close> is as before, and a later
  call for \<open>u\<close> in a browser that is not gated calls a strategy again. If the strategy's
  promise resolves, \<open>u\<close> is marked.
\<close>

theorem prefetcher_failure_handling:
  assumes "prefetcher e st u p = (st1, r1)"
    and "invocations st1 = invocations st @ [call]"
  shows "(settled call = Rejected r \<longrightarrow>
            r1 = Resolved \<and> \<not> is_prefetched st1 u \<and> preFetched st1 = preFetched st
            \<and> (\<not> gated e' \<longrightarrow>
                 length (invocations (fst (prefetcher e' st1 u p'))) = length (invocations st1) + 1))
       \<and> (settled call = Resolved \<longrightarrow> r1 = Resolved \<and> is_prefetched st1 u)"
proof -
  note inv = prefetcher_invoked [OF assms]
  show ?thesis
  proof (intro conjI impI)
    assume rej: "settled call = Rejected r"
    show "r1 = Resolved" using inv(6) rej by simp
    show same: "preFetched st1 = preFetched st" using inv(5) rej by simp
    show np: "\<not> is_prefetched st1 u" using inv(1) same by (simp add: is_prefetched_def)
    assume "\<not> gated e'"
    then show "length (invocations (fst (prefetcher e' st1 u p'))) = length (invocations st1) + 1"
      using np by (simp add: prefetcher_open)
  next
    assume res: "settled call = Resolved"
    show "r1 = Resolved" using inv(6) res by simp
    show "is_prefetched st1 u" using inv(5) res by (simp add: is_prefetched_def)
  qed
qed

theorem prefetcher_failure_handling_witness:
  "settled (linkPrefetchStrategy failing_env ''/a'') = Rejected ErrorEvent
   \<and> snd (prefetcher failing_env (init failing_env) ''/a'' None) = Resolved
   \<and> \<not> is_prefetched (fst (prefetcher failing_env (init failing_env) ''/a'' None)) ''/a''
   \<and> length (invocations (fst (prefetcher sample_env
         (fst (prefetcher failing_env (init failing_env) ''/a'' None)) ''/a'' None))) = 2"
proof -
  have h1: "prefetcher failing_env (init failing_env) ''/a'' None =
      (fst (prefetcher failing_env (init failing_env) ''/a'' None),
       snd (prefetcher failing_env (init failing_env) ''/a'' None))"
    by simp
  have h2: "invocations (fst (prefetcher failing_env (init failing_env) ''/a'' None)) =
      invocations (init failing_env) @ [linkPrefetchStrategy failing_env ''/a'']"
    by (simp add: sample_env_def sample_document_def failing_env_def dispatcher_defs)
  have h3: "settled (linkPrefetchStrategy failing_env ''/a'') = Rejected ErrorEvent"
    by (simp add: sample_env_def sample_document_def failing_env_def dispatcher_defs)
  have h4: "\<not> gated sample_env"
    by (simp add: sample_env_def sample_document_def failing_env_def dispatcher_defs)
  have h5: "invocations (init failing_env) = []"
    by (simp add: init_def)
  from prefetcher_failure_handling [OF h1 h2, of ErrorEvent sample_env None] h3 h4 h2 h5 show ?thesis
    by simp
qed

text \<open>
  C4 (membership of PrefetchedSet), as the claim states it: every URL handed to a strategy
  is a member afterwards, whatever the outcome. The code marks the URL after the
  \<^verbatim>\<open>await\<close>, inside the \<^verbatim>\<open>try\<close>: with a link element that fires \<^verbatim>\<open>error\<close>, the strategy
  has been called and the URL is not a member.
\<close>

theorem optimistic_membership_counterexample:
  "invocations (fst (prefetcher failing_env (init failing_env) ''/a'' None))
     = [linkPrefetchStrategy failing_env ''/a'']
   \<and> \<not> is_prefetched (fst (prefetcher failing_env (init failing_env) ''/a'' None)) ''/a''"
  by (simp add: sample_env_def sample_document_def failing_env_def dispatcher_defs)

text \<open>
  C4, amended. A URL handed to a strategy is a member afterwards exactly when the
  strategy's promise resolved. The set only grows: a call keeps every key it found, and
  so does any sequence of later calls.
\<close>

theorem prefetched_iff_resolved:
  assumes "prefetcher e st u p = (st1, r1)"
    and "invocations st1 = invocations st @ [call]"
  shows "(is_prefetched st1 u \<longleftrightarrow> settled call = Resolved)
       \<and> preFetched st \<subseteq> preFetched st1
       \<and> preFetched st1 \<subseteq> preFetched (replay st1 calls)"
proof -
  note inv = prefetcher_invoked [OF assms]
  have "is_prefetched st1 u \<longleftrightarrow> settled call = Resolved"
    using inv(1) inv(5) by (auto simp: is_prefetched_def)
  moreover have "preFetched st \<subseteq> preFetched st1"
    using prefetcher_grows [of st e u p] assms(1) by simp
  ultimately show ?thesis using replay_grows by blast
qed

theorem prefetched_iff_resolved_witness:
  "\<not> is_prefetched (fst (prefetcher failing_env (init failing_env) ''/b'' None)) ''/b''
   \<and> is_prefetched (fst (prefetcher sample_env (init sample_env) ''/b'' None)) ''/b''
   \<and> preFetched (init sample_env) \<subseteq> preFetched (fst (prefetcher sample_env (init sample_env) ''/b'' None))
   \<and> preFetched (fst (prefetcher sample_env (init sample_env) ''/b'' None))
       \<subseteq> preFetched (replay (fst (prefetcher sample_env (init sample_env) ''/b'' None))
            [(failing_env, ''/c'', None), (sample_env, ''/d'', Some ''high'')])"
proof -
  have f1: "prefetcher failing_env (init failing_env) ''/b'' None =
      (fst (prefetcher failing_env (init failing_env) ''/b'' None),
       snd (prefetcher failing_env (init failing_env) ''/b'' None))"
    by simp
  have f2: "invocations (fst (prefetcher failing_env (init failing_env) ''/b'' None)) =
      invocations (init failing_env) @ [linkPrefetchStrategy failing_env ''/b'']"
    by (simp add: sample_env_def sample_document_def failing_env_def dispatcher_defs)
  have f3: "settled (linkPrefetchStrategy failing_env ''/b'') \<noteq> Resolved"
    by (simp add: sample_env_def sample_document_def failing_env_def dispatcher_defs)
  have s1: "prefetcher sample_env (init sample_env) ''/b'' None =
      (fst (prefetcher sample_env (init sample_env) ''/b'' None),
       snd (prefetcher sample_env (init sample_env) ''/b'' None))"
    by simp
  have s2: "invocations (fst (prefetcher sample_env (init sample_env) ''/b'' None)) =
      invocations (init sample_env) @ [linkPrefetchStrategy sample_env ''/b'']"
    by (simp add: sample_env_def sample_document_def failing_env_def dispatcher_defs)
  have s3: "settled (linkPrefetchStrategy sample_env ''/b'') = Resolved"
    by (simp add: sample_env_def sample_document_def failing_env_def dispatcher_defs)
  from prefetched_iff_resolved [OF f1 f2] f3
    prefetched_iff_resolved [OF s1 s2,
      of "[(failing_env, ''/c'', None), (sample_env, ''/d'', Some ''high'')]"] s3
  show ?thesis by simp
qed

text \<open>
  C5 (the XHR strategy's contract). The request is a GET with credentials, its promise
  resolves exactly on a \<^verbatim>\<open>load\<close> with status 200 and is rejected on a \<^verbatim>\<open>load\<close> with any
  other status (\<open>xhr_contract\<close>). On a transport failure the claim asks for a rejection;
  the code has set no \<^verbatim>\<open>onerror\<close> handler, and the promise stays pending, where the link
  strategy, whose \<^verbatim>\<open>onerror\<close> is \<^verbatim>\<open>reject\<close>, is rejected.
\<close>

theorem xhr_network_error_never_settles:
  "on_xhr offline_env ''/a'' = XhrNetworkError
   \<and> settled (xhrPrefetchStrategy offline_env ''/a'') = Pending
   \<and> settled (linkPrefetchStrategy failing_env ''/a'') = Rejected ErrorEvent"
  by (simp add: sample_env_def sample_document_def failing_env_def offline_env_def dispatcher_defs)

text \<open>
  C6 (strategy selection). Let the module have been loaded in browser \<open>e0\<close>, so that
  \<^verbatim>\<open>supportedPrefetchStrategy\<close> is what that load chose (a constant: \<open>replay_supported\<close> and
  \<open>run_supported\<close> show that no call changes it). Then in any state, a call for a URL that
  neither guard stops calls exactly one strategy:
  with priority \<^verbatim>\<open>high\<close>, \<^verbatim>\<open>fetch\<close> with credentials included when \<^verbatim>\<open>self.fetch\<close> is
  defined, whatever the probe said, and the XHR strategy when it is not; with any other
  priority, the link strategy when the probe \<^verbatim>\<open>support(`prefetch`)\<close> returned true at
  load, and the XHR strategy otherwise.
\<close>

theorem prefetcher_strategy_selection:
  assumes "supportedPrefetchStrategy st = supportedPrefetchStrategy (init e0)"
    and "\<not> is_prefetched st u" and "\<not> gated e"
  shows "invocations (fst (prefetcher e st u p)) = invocations st @
           [if p = Some ''high'' then
              (if fetch_defined e then
                 \<lparr>strategy = FetchTransport, url_of = u, effects = [FetchCall u ''include''],
                  settled = fetch_settles (on_fetch e u)\<rparr>
               else xhrPrefetchStrategy e u)
            else
              (if support e0 ''prefetch'' = Some True then linkPrefetchStrategy e u
               else xhrPrefetchStrategy e u)]
       \<and> strategy (last (invocations (fst (prefetcher e st u p)))) =
           (if p = Some ''high'' then (if fetch_defined e then FetchTransport else XhrPrefetch)
            else (if support e0 ''prefetch'' = Some True then LinkPrefetch else XhrPrefetch))"
proof -
  have sel: "supportedPrefetchStrategy st =
      (if support e0 ''prefetch'' = Some True then LinkPrefetchStrategy else XhrPrefetchStrategy)"
    using assms(1) by (cases "support e0 ''prefetch''") (simp_all add: init_def)
  have hist: "invocations (fst (prefetcher e st u p)) = invocations st @
           [if p = Some ''high'' then
              (if fetch_defined e then
                 \<lparr>strategy = FetchTransport, url_of = u, effects = [FetchCall u ''include''],
                  settled = fetch_settles (on_fetch e u)\<rparr>
               else xhrPrefetchStrategy e u)
            else
              (if support e0 ''prefetch'' = Some True then linkPrefetchStrategy e u
               else xhrPrefetchStrategy e u)]"
    using prefetcher_history [OF assms(2,3), of p] sel
    by (simp add: call_supported_def highPriFetchStrategy_def)
  then show ?thesis by simp
qed

theorem prefetcher_strategy_selection_witness:
  "strategy (last (invocations (fst (prefetcher sample_env
       (replay (init sample_env) [(sample_env, ''/a'', None)]) ''/b'' (Some ''high'')))))
     = FetchTransport
   \<and> strategy (last (invocations (fst (prefetcher legacy_env
       (replay (init sample_env) [(sample_env, ''/a'', None)]) ''/b'' (Some ''high'')))))
     = XhrPrefetch
   \<and> strategy (last (invocations (fst (prefetcher sample_env
       (replay (init sample_env) [(sample_env, ''/a'', None)]) ''/b'' (Some ''low'')))))
     = LinkPrefetch
   \<and> strategy (last (invocations (fst (prefetcher sample_env
       (replay (init legacy_env) [(sample_env, ''/a'', None)]) ''/b'' (Some ''low'')))))
     = XhrPrefetch"
proof -
  have g: "\<not> gated sample_env" "\<not> gated legacy_env"
    by (simp_all add: sample_env_def sample_document_def legacy_env_def dispatcher_defs)
  have n1: "\<not> is_prefetched (replay (init sample_env) [(sample_env, ''/a'', None)]) ''/b''"
    by (simp add: sample_env_def sample_document_def legacy_env_def dispatcher_defs)
  have n2: "\<not> is_prefetched (replay (init legacy_env) [(sample_env, ''/a'', None)]) ''/b''"
    by (simp add: sample_env_def sample_document_def legacy_env_def dispatcher_defs)
  have s1: "support sample_env ''prefetch'' = Some True"
    by (simp add: sample_env_def sample_document_def legacy_env_def dispatcher_defs)
  have s2: "support legacy_env ''prefetch'' \<noteq> Some True"
    by (simp add: sample_env_def sample_document_def legacy_env_def dispatcher_defs)
  have f: "fetch_defined sample_env" "\<not> fetch_defined legacy_env"
    by (simp_all add: sample_env_def sample_document_def legacy_env_def dispatcher_defs)
  from prefetcher_strategy_selection [OF replay_supported n1 g(1), of "Some ''high''"]
    prefetcher_strategy_selection [OF replay_supported n1 g(2), of "Some ''high''"]
    prefetcher_strategy_selection [OF replay_supported n1 g(1), of "Some ''low''"]
    prefetcher_strategy_selection [OF replay_supported n2 g(1), of "Some ''low''"]
    s1 s2 f
  show ?thesis by simp
qed

text \<open>
  C9 (a document with no container for the link element), as the claim states it: the
  fault leaves the dispatcher as an uncaught error. In a document with neither a head nor
  an element named \<^verbatim>\<open>script\<close> the link strategy is called, its promise is rejected with
  the TypeError, and the promise of \<open>prefetcher\<close> resolves: nothing leaves the dispatcher.
\<close>

theorem uncaught_fault_counterexample:
  "supportedPrefetchStrategy (init headless_env) = LinkPrefetchStrategy
   \<and> invocations (fst (prefetcher headless_env (init headless_env) ''/a'' None))
       = [\<lparr>strategy = LinkPrefetch, url_of = ''/a'', effects = [], settled = Rejected TypeError\<rparr>]
   \<and> snd (prefetcher headless_env (init headless_env) ''/a'' None) = Resolved"
  by (simp add: sample_env_def sample_document_def headless_env_def dispatcher_defs)

text \<open>
  C9, amended. With no head and no fallback container found, the throw happens inside the
  promise executor: the link strategy appends nothing and its promise is rejected with the
  TypeError. The dispatcher treats it as it treats a transport failure: the call's
  promise resolves, the strategy call is in the history, the URL is not marked.
\<close>

theorem missing_container_swallowed:
  assumes "document e = Some doc" and "\<not> has_head doc" and "\<not> has_named_script doc"
    and "supportedPrefetchStrategy st = LinkPrefetchStrategy" and "p \<noteq> Some ''high''"
    and "\<not> is_prefetched st u" and "\<not> gated e"
  shows "linkPrefetchStrategy e u =
           \<lparr>strategy = LinkPrefetch, url_of = u, effects = [], settled = Rejected TypeError\<rparr>
       \<and> prefetcher e st u p =
           (st\<lparr>invocations := invocations st @ [linkPrefetchStrategy e u]\<rparr>, Resolved)"
proof -
  have l: "linkPrefetchStrategy e u =
      \<lparr>strategy = LinkPrefetch, url_of = u, effects = [], settled = Rejected TypeError\<rparr>"
    using assms(1-3) by (simp add: linkPrefetchStrategy_def)
  have "prefetcher e st u p =
      prefetcher_resume (st\<lparr>invocations := invocations st @ [linkPrefetchStrategy e u]\<rparr>) u
        (settled (linkPrefetchStrategy e u))"
    using prefetcher_open [OF assms(6,7), of p] assms(4,5) by (simp add: call_supported_def)
  also have "\<dots> = (st\<lparr>invocations := invocations st @ [linkPrefetchStrategy e u]\<rparr>, Resolved)"
    by (simp add: l prefetcher_resume_def)
  finally show ?thesis using l by simp
qed

theorem missing_container_swallowed_witness:
  "prefetcher headless_env (init headless_env) ''/a'' None =
     ((init headless_env)\<lparr>invocations :=
        [\<lparr>strategy = LinkPrefetch, url_of = ''/a'', effects = [], settled = Rejected TypeError\<rparr>]\<rparr>,
      Resolved)"
proof -
  have h1: "document headless_env = Some (sample_document\<lparr>has_head := False\<rparr>)"
    by (simp add: sample_env_def sample_document_def headless_env_def dispatcher_defs)
  have h2: "\<not> has_head (sample_document\<lparr>has_head := False\<rparr>)" by simp
  have h3: "\<not> has_named_script (sample_document\<lparr>has_head := False\<rparr>)"
    by (simp add: sample_env_def sample_document_def headless_env_def dispatcher_defs)
  have h4: "supportedPrefetchStrategy (init headless_env) = LinkPrefetchStrategy"
    by (simp add: sample_env_def sample_document_def headless_env_def dispatcher_defs)
  have h5: "(None :: string option) \<noteq> Some ''high''" by simp
  have h6: "\<not> is_prefetched (init headless_env) ''/a''"
    by (simp add: sample_env_def sample_document_def headless_env_def dispatcher_defs)
  have h7: "\<not> gated headless_env"
    by (simp add: sample_env_def sample_document_def headless_env_def dispatcher_defs)
  from missing_container_swallowed [OF h1 h2 h3 h4 h5 h6 h7] show ?thesis
    by (simp add: init_def)
qed

text \<open>
  C10 (high priority and HTTP errors). With \<^verbatim>\<open>self.fetch\<close> defined and neither guard in
  the way, a call with priority \<^verbatim>\<open>high\<close> whose \<^verbatim>\<open>fetch\<close> gets a response of any status
  (404 and 500 among them) marks the URL, and every later call for it, in any browser
  and with any priority, returns at the first guard. Only the XHR strategy looks at the
  status: its promise resolves exactly on status 200.
\<close>

theorem high_priority_ignores_status:
  assumes "fetch_defined e" and "\<not> is_prefetched st u" and "\<not> gated e"
    and "on_fetch e u = FetchResponse status"
    and "st1 = fst (prefetcher e st u (Some ''high''))"
  shows "invocations st1 = invocations st @
           [\<lparr>strategy = FetchTransport, url_of = u, effects = [FetchCall u ''include''],
             settled = Resolved\<rparr>]
       \<and> is_prefetched st1 u
       \<and> prefetcher e' st1 u p' = (st1, Resolved)
       \<and> (settled (xhrPrefetchStrategy e u) = Resolved \<longleftrightarrow> on_xhr e u = XhrLoad 200)"
proof -
  have h: "highPriFetchStrategy e u =
      \<lparr>strategy = FetchTransport, url_of = u, effects = [FetchCall u ''include''],
        settled = Resolved\<rparr>"
    using assms(1,4) by (simp add: highPriFetchStrategy_def fetch_settles_def)
  have st1: "st1 = st\<lparr>invocations := invocations st @ [highPriFetchStrategy e u],
                      preFetched := insert u (preFetched st)\<rparr>"
    using assms(5) prefetcher_open [OF assms(2,3), of "Some ''high''"]
    by (simp add: h prefetcher_resume_def)
  have m: "is_prefetched st1 u" using st1 by (simp add: is_prefetched_def)
  then have "prefetcher e' st1 u p' = (st1, Resolved)" by (simp add: prefetcher_guarded)
  then show ?thesis using st1 m h xhr_contract [of e u] by simp
qed

theorem high_priority_ignores_status_witness:
  "on_fetch not_found_env ''/gone'' = FetchResponse 404
   \<and> is_prefetched (fst (prefetcher not_found_env (init not_found_env) ''/gone'' (Some ''high''))) ''/gone''
   \<and> prefetcher sample_env
        (fst (prefetcher not_found_env (init not_found_env) ''/gone'' (Some ''high''))) ''/gone'' None
      = (fst (prefetcher not_found_env (init not_found_env) ''/gone'' (Some ''high'')), Resolved)
   \<and> settled (xhrPrefetchStrategy not_found_env ''/gone'') \<noteq> Resolved"
proof -
  have h1: "fetch_defined not_found_env"
    by (simp add: sample_env_def sample_document_def not_found_env_def dispatcher_defs)
  have h2: "\<not> is_prefetched (init not_found_env) ''/gone''"
    by (simp add: sample_env_def sample_document_def not_found_env_def dispatcher_defs)
  have h3: "\<not> gated not_found_env"
    by (simp add: sample_env_def sample_document_def not_found_env_def dispatcher_defs)
  have h4: "on_fetch not_found_env ''/gone'' = FetchResponse 404"
    by (simp add: sample_env_def sample_document_def not_found_env_def dispatcher_defs)
  have h5: "on_xhr not_found_env ''/gone'' \<noteq> XhrLoad 200"
    by (simp add: sample_env_def sample_document_def not_found_env_def dispatcher_defs)
  from high_priority_ignores_status [OF h1 h2 h3 h4 refl, of sample_env None] h4 h5
  show ?thesis by simp
qed

section \<open>Properties of the scheduler\<close>

lemmas scheduler_defs =
  run_def page_init_def scheduling_pass_def merge_options_def observe_def register_loader_def
  observer_callback_def on_intersecting_def dispatches_for_def quicklink_def

subsection \<open>The Map\<close>

lemma Map_has_iff: "Map_has m k \<longleftrightarrow> k \<in> fst ` set m"
  by (induction m k rule: Map_has.induct) auto

lemma Map_get_None_iff: "Map_get m k = None \<longleftrightarrow> \<not> Map_has m k"
  by (induction m k rule: Map_get.induct) auto

lemma Map_get_in: "Map_get m k = Some v \<Longrightarrow> (k, v) \<in> set m"
  by (induction m k rule: Map_get.induct) (auto split: if_splits)

lemma keys_Map_set: "fst ` set (Map_set m k v) = insert k (fst ` set m)"
  by (induction m k v rule: Map_set.induct) auto

lemma set_Map_set: "set (Map_set m k v) \<subseteq> insert (k, v) (set m)"
  by (induction m k v rule: Map_set.induct) auto

lemma distinct_Map_set: "distinct (map fst m) \<Longrightarrow> distinct (map fst (Map_set m k v))"
  by (induction m k v rule: Map_set.induct) (auto simp: keys_Map_set)

lemma Map_delete_filter: "Map_delete m k = filter (\<lambda>kv. fst kv \<noteq> k) m"
  by (induction m k rule: Map_delete.induct) auto

lemma Map_has_delete [simp]: "Map_has (Map_delete m k) k' \<longleftrightarrow> k' \<noteq> k \<and> Map_has m k'"
  by (auto simp: Map_has_iff Map_delete_filter)

lemma registry_ok_Nil [simp]: "registry_ok []"
  by (simp add: registry_ok_def)

lemma registry_ok_set: "registry_ok m \<Longrightarrow> registry_ok (Map_set m k (Loader k pri))"
  unfolding registry_ok_def list_all_iff
  using set_Map_set [of m k "Loader k pri"] by (auto simp: distinct_Map_set)

lemma registry_ok_delete: "registry_ok m \<Longrightarrow> registry_ok (Map_delete m k)"
  by (simp add: registry_ok_def Map_delete_filter list_all_iff distinct_map_filter)

lemma registry_ok_get:
  "registry_ok m \<Longrightarrow> Map_get m k = Some f \<Longrightarrow> \<exists>pri. f = Loader k pri"
  by (cases f) (auto simp: registry_ok_def list_all_iff dest!: Map_get_in)

subsection \<open>What each operation leaves alone\<close>

lemma prefetch_frame [simp]:
  "loaderFunctions (prefetch e st u pri) = loaderFunctions st"
  "observed (prefetch e st u pri) = observed st"
  "dispatched (prefetch e st u pri) = dispatched st @ [(u, pri)]"
  by (simp_all add: prefetch_def split: prod.split option.split)

lemma settle_frame [simp]:
  "loaderFunctions (settle n st) = loaderFunctions st"
  "observed (settle n st) = observed st"
  "dispatched (settle n st) = dispatched st"
  by (simp_all add: settle_def split: prod.split)

lemma observe_frame [simp]:
  "loaderFunctions (observe a st) = loaderFunctions st"
  "dispatched (observe a st) = dispatched st"
  by (simp_all add: observe_def)

lemma fold_observe_frame [simp]:
  "loaderFunctions (fold observe as st) = loaderFunctions st"
  "dispatched (fold observe as st) = dispatched st"
  by (induction as arbitrary: st) simp_all

lemma register_loader_frame [simp]:
  "loaderFunctions (register_loader pri u st) = Map_set (loaderFunctions st) u (Loader u pri)"
  "observed (register_loader pri u st) = observed st"
  "dispatched (register_loader pri u st) = dispatched st"
  by (simp_all add: register_loader_def)

lemma fold_prefetch_frame [simp]:
  "loaderFunctions (fold (\<lambda>u s. prefetch e s u pri) us st) = loaderFunctions st"
  "observed (fold (\<lambda>u s. prefetch e s u pri) us st) = observed st"
  "dispatched (fold (\<lambda>u s. prefetch e s u pri) us st) = dispatched st @ map (\<lambda>u. (u, pri)) us"
  by (induction us arbitrary: st) simp_all

lemma strategies_anchors [simp]:
  "linkPrefetchStrategy (e\<lparr>anchors_in := f\<rparr>) u = linkPrefetchStrategy e u"
  "xhrPrefetchStrategy (e\<lparr>anchors_in := f\<rparr>) u = xhrPrefetchStrategy e u"
  "highPriFetchStrategy (e\<lparr>anchors_in := f\<rparr>) u = highPriFetchStrategy e u"
  "gated (e\<lparr>anchors_in := f\<rparr>) = gated e"
  by (simp_all add: linkPrefetchStrategy_def xhrPrefetchStrategy_def highPriFetchStrategy_def
      gated_def split: option.split)

lemma prefetcher_begin_anchors [simp]:
  "prefetcher_begin (e\<lparr>anchors_in := f\<rparr>) m u p = prefetcher_begin e m u p"
  by (simp add: prefetcher_begin_def call_supported_def split: supported.split)

lemma count_dispatches:
  "length (filter ((\<lambda>d. fst d = u) \<circ> (\<lambda>u. (u, pri))) us) = count_list us u"
  by (induction us) simp_all

lemma prefetch_anchors [simp]: "prefetch (e\<lparr>anchors_in := f\<rparr>) st u pri = prefetch e st u pri"
  by (simp add: prefetch_def)

lemma registered_eval:
  "loaderFunctions registered = [(''/a'', Loader ''/a'' ''low''), (''/b'', Loader ''/b'' ''low'')]"
  "observed registered = [link_a, link_b]"
  "dispatched registered = []"
  by (simp_all add: link_a_def link_b_def registered_def page_env_def no_options_def
      scheduler_defs sample_env_def sample_document_def dispatcher_defs)

lemma prefetch_supported [simp]:
  "supportedPrefetchStrategy (dispatcher (prefetch e st u pri)) =
     supportedPrefetchStrategy (dispatcher st)"
  by (simp add: prefetch_def prefetcher_begin_def Let_def)

lemma settle_supported [simp]:
  "supportedPrefetchStrategy (dispatcher (settle n st)) = supportedPrefetchStrategy (dispatcher st)"
  by (simp add: settle_def split: prod.split)

lemma on_intersecting_supported [simp]:
  "supportedPrefetchStrategy (dispatcher (on_intersecting e en st)) =
     supportedPrefetchStrategy (dispatcher st)"
proof (cases "Map_get (loaderFunctions st) (href (entry_target en))")
  case None
  then show ?thesis by (simp add: on_intersecting_def Let_def)
next
  case (Some f)
  then show ?thesis by (cases f) (simp add: on_intersecting_def Let_def)
qed

lemma scheduling_pass_supported [simp]:
  "supportedPrefetchStrategy (dispatcher (scheduling_pass e opts st)) =
     supportedPrefetchStrategy (dispatcher st)"
proof -
  have a: "dispatcher (fold observe ls s) = dispatcher s" for ls s
    by (induction ls arbitrary: s) (simp_all add: observe_def)
  have b: "dispatcher (fold (register_loader pri) us s) = dispatcher s" for pri us s
    by (induction us arbitrary: s) (simp_all add: register_loader_def)
  have c: "supportedPrefetchStrategy (dispatcher (fold (\<lambda>u s. prefetch e s u pri) us s)) =
      supportedPrefetchStrategy (dispatcher s)" for pri us s
    by (induction us arbitrary: s) simp_all
  show ?thesis
    by (simp add: scheduling_pass_def Let_def a b c split: option.split)
qed

lemma step_supported [simp]:
  "supportedPrefetchStrategy (dispatcher (step ev st)) = supportedPrefetchStrategy (dispatcher st)"
proof (cases ev)
  case (Pass e opts)
  then show ?thesis by simp
next
  case (Notify e es)
  have "supportedPrefetchStrategy (dispatcher (fold (on_intersecting e) xs s)) =
      supportedPrefetchStrategy (dispatcher s)" for xs s
    by (induction xs arbitrary: s) simp_all
  then show ?thesis using Notify by (simp add: observer_callback_def)
next
  case (Settle n)
  then show ?thesis by simp
qed

lemma run_supported:
  "supportedPrefetchStrategy (dispatcher (run evs (page_init e0))) =
     supportedPrefetchStrategy (init e0)"
proof -
  have "supportedPrefetchStrategy (dispatcher (fold step evs s)) =
      supportedPrefetchStrategy (dispatcher s)" for s
    by (induction evs arbitrary: s) simp_all
  then show ?thesis by (simp add: run_def page_init_def)
qed

text \<open>
  The dedup guard reads \<^verbatim>\<open>preFetched\<close>, which is written only when a promise has settled:
  two calls of \<^verbatim>\<open>prefetch\<close> for one URL in the same turn both call a strategy.
\<close>

lemma not_deduplicated_before_settlement:
  assumes "\<not> is_prefetched (dispatcher st) u" and "\<not> gated e"
  shows "invocations_for (dispatcher (prefetch e (prefetch e st u pri) u pri)) u
           = invocations_for (dispatcher st) u + 2"
  using assms
  by (simp add: prefetch_def prefetcher_begin_def Let_def invocations_for_def
      highPriFetchStrategy_def xhrPrefetchStrategy_def)

subsection \<open>The invariant is kept\<close>

lemma fold_register_ok:
  "registry_ok (loaderFunctions st) \<Longrightarrow>
   registry_ok (loaderFunctions (fold (register_loader pri) us st))"
  by (induction us arbitrary: st) (simp_all add: registry_ok_set)

lemma scheduling_pass_ok:
  "registry_ok (loaderFunctions st) \<Longrightarrow> registry_ok (loaderFunctions (scheduling_pass e opts st))"
  by (simp add: scheduling_pass_def Let_def fold_register_ok split: option.split)

lemma on_intersecting_cases:
  assumes "registry_ok (loaderFunctions st)"
  obtains (absent) "\<not> Map_has (loaderFunctions st) (href (entry_target en))"
      "on_intersecting e en st = st"
  | (fire) pri where "Map_get (loaderFunctions st) (href (entry_target en))
        = Some (Loader (href (entry_target en)) pri)"
      "Map_has (loaderFunctions st) (href (entry_target en))"
      "on_intersecting e en st =
         prefetch e (st\<lparr>loaderFunctions :=
            Map_delete (loaderFunctions st) (href (entry_target en))\<rparr>) (href (entry_target en)) pri"
proof (cases "Map_has (loaderFunctions st) (href (entry_target en))")
  case False
  then show ?thesis using absent by (simp add: on_intersecting_def)
next
  case True
  then obtain f where f: "Map_get (loaderFunctions st) (href (entry_target en)) = Some f"
    using Map_get_None_iff [of "loaderFunctions st" "href (entry_target en)"] by auto
  then obtain pri where "f = Loader (href (entry_target en)) pri"
    using registry_ok_get [OF assms] by blast
  then show ?thesis using fire [of pri] f True by (simp add: on_intersecting_def Let_def)
qed

lemma on_intersecting_ok:
  assumes "registry_ok (loaderFunctions st)"
  shows "registry_ok (loaderFunctions (on_intersecting e en st))"
  using assms
  by (cases rule: on_intersecting_cases [OF assms, of en e]) (simp_all add: registry_ok_delete)

lemma on_intersecting_consumes:
  assumes "registry_ok (loaderFunctions st)"
  shows "\<not> Map_has (loaderFunctions (on_intersecting e en st)) (href (entry_target en))"
  by (cases rule: on_intersecting_cases [OF assms, of en e]) simp_all

lemma on_intersecting_keys:
  assumes "registry_ok (loaderFunctions st)"
  shows "Map_has (loaderFunctions (on_intersecting e en st)) k \<Longrightarrow> Map_has (loaderFunctions st) k"
  by (cases rule: on_intersecting_cases [OF assms, of en e]) simp_all

lemma fold_on_intersecting_ok:
  "registry_ok (loaderFunctions st) \<Longrightarrow>
   registry_ok (loaderFunctions (fold (on_intersecting e) es st))"
  by (induction es arbitrary: st) (simp_all add: on_intersecting_ok)

lemma observer_callback_ok:
  "registry_ok (loaderFunctions st) \<Longrightarrow> registry_ok (loaderFunctions (observer_callback e st es))"
  by (simp add: observer_callback_def fold_on_intersecting_ok)

lemma step_ok: "registry_ok (loaderFunctions st) \<Longrightarrow> registry_ok (loaderFunctions (step ev st))"
  by (cases ev) (simp_all add: scheduling_pass_ok observer_callback_ok)

lemma run_ok: "registry_ok (loaderFunctions st) \<Longrightarrow> registry_ok (loaderFunctions (run evs st))"
  unfolding run_def by (induction evs arbitrary: st) (simp_all add: step_ok)

lemma reachable_ok: "registry_ok (loaderFunctions (run evs (page_init e0)))"
  by (rule run_ok) (simp add: page_init_def)

subsection \<open>One dispatch for each live entry\<close>

lemma on_intersecting_budget:
  assumes "registry_ok (loaderFunctions st)"
  shows "dispatches_for (on_intersecting e en st) u + pending_for (on_intersecting e en st) u
           \<le> dispatches_for st u + pending_for st u"
  by (cases rule: on_intersecting_cases [OF assms, of en e])
     (auto simp: dispatches_for_def pending_for_def)

lemma fold_on_intersecting_budget:
  "registry_ok (loaderFunctions st) \<Longrightarrow>
   dispatches_for (fold (on_intersecting e) es st) u + pending_for (fold (on_intersecting e) es st) u
     \<le> dispatches_for st u + pending_for st u"
proof (induction es arbitrary: st)
  case Nil
  then show ?case by simp
next
  case (Cons en es)
  have "dispatches_for (fold (on_intersecting e) es (on_intersecting e en st)) u
          + pending_for (fold (on_intersecting e) es (on_intersecting e en st)) u
        \<le> dispatches_for (on_intersecting e en st) u + pending_for (on_intersecting e en st) u"
    by (rule Cons.IH) (rule on_intersecting_ok [OF Cons.prems])
  also have "\<dots> \<le> dispatches_for st u + pending_for st u"
    by (rule on_intersecting_budget [OF Cons.prems])
  finally show ?case by simp
qed

lemma step_budget:
  assumes "registry_ok (loaderFunctions st)" and "\<not> is_pass ev"
  shows "dispatches_for (step ev st) u + pending_for (step ev st) u
           \<le> dispatches_for st u + pending_for st u"
proof (cases ev)
  case (Pass e opts)
  then show ?thesis using assms(2) by simp
next
  case (Notify e es)
  then show ?thesis
    using fold_on_intersecting_budget [OF assms(1)] by (simp add: observer_callback_def)
next
  case (Settle n)
  then show ?thesis by (simp add: dispatches_for_def pending_for_def)
qed

lemma run_budget:
  "registry_ok (loaderFunctions st) \<Longrightarrow> list_all (\<lambda>ev. \<not> is_pass ev) evs \<Longrightarrow>
   dispatches_for (run evs st) u + pending_for (run evs st) u
     \<le> dispatches_for st u + pending_for st u"
proof (induction evs arbitrary: st)
  case Nil
  then show ?case by (simp add: run_def)
next
  case (Cons ev evs)
  have "dispatches_for (run evs (step ev st)) u + pending_for (run evs (step ev st)) u
          \<le> dispatches_for (step ev st) u + pending_for (step ev st) u"
    using Cons.prems by (intro Cons.IH step_ok) simp_all
  also have "\<dots> \<le> dispatches_for st u + pending_for st u"
    using Cons.prems by (intro step_budget) simp_all
  finally show ?case by (simp add: run_def)
qed

lemma fold_on_intersecting_absent:
  "list_all (\<lambda>en. \<not> Map_has (loaderFunctions st) (href (entry_target en))) es \<Longrightarrow>
   fold (on_intersecting e) es st = st"
  by (induction es) (simp_all add: on_intersecting_def)

lemma fold_on_intersecting_keys:
  "registry_ok (loaderFunctions st) \<Longrightarrow>
   Map_has (loaderFunctions (fold (on_intersecting e) es st)) k \<Longrightarrow> Map_has (loaderFunctions st) k"
proof (induction es arbitrary: st)
  case Nil
  then show ?case by simp
next
  case (Cons en es)
  have "Map_has (loaderFunctions (on_intersecting e en st)) k"
    using Cons.IH [OF on_intersecting_ok [OF Cons.prems(1)]] Cons.prems(2) by simp
  then show ?case by (rule on_intersecting_keys [OF Cons.prems(1)])
qed

lemma fold_on_intersecting_consumes:
  "registry_ok (loaderFunctions st) \<Longrightarrow> en \<in> set es \<Longrightarrow>
   \<not> Map_has (loaderFunctions (fold (on_intersecting e) es st)) (href (entry_target en))"
proof (induction es arbitrary: st)
  case Nil
  then show ?case by simp
next
  case (Cons x es)
  note ok = on_intersecting_ok [OF Cons.prems(1), of e x]
  show ?case
  proof (cases "en \<in> set es")
    case True
    then show ?thesis using Cons.IH [OF ok] by simp
  next
    case False
    then have "en = x" using Cons.prems(2) by simp
    then have "\<not> Map_has (loaderFunctions (on_intersecting e x st)) (href (entry_target en))"
      using on_intersecting_consumes [OF Cons.prems(1)] by simp
    then show ?thesis using fold_on_intersecting_keys [OF ok] by auto
  qed
qed

lemma observer_callback_again:
  assumes "registry_ok (loaderFunctions st)"
  shows "observer_callback e' (observer_callback e st es) es = observer_callback e st es"
proof -
  have "list_all (\<lambda>en. \<not> Map_has (loaderFunctions (fold (on_intersecting e) (filter isIntersecting es) st))
           (href (entry_target en))) (filter isIntersecting es)"
    unfolding list_all_iff using fold_on_intersecting_consumes [OF assms] by blast
  then show ?thesis
    by (simp add: observer_callback_def fold_on_intersecting_absent)
qed

section \<open>The claims about the scheduler\<close>

text \<open>
  C7 (the registry is consumed). Let \<open>st\<close> be any state the page reaches from its load
  by scheduling passes, intersection notifications and settlements. Then
  \<^item> no URL has two entries in \<^verbatim>\<open>loaderFunctions\<close>;
  \<^item> for an intersecting entry whose URL is registered, the callback calls \<^verbatim>\<open>prefetch\<close> in
    the state from which the URL's entry has already been deleted, and afterwards the
    URL has no entry;
  \<^item> however many notifications and settlements follow, as long as no new pass
    registers links, \<^verbatim>\<open>prefetch\<close> is called for a URL at most once if it has an entry
    and not at all if it has none;
  \<^item> a notification whose intersecting entries all have URLs without an entry changes
    nothing, and so does a notification delivered a second time.
\<close>

theorem loader_registry_consumption:
  assumes "st = run evs (page_init e0)"
  shows "distinct (map fst (loaderFunctions st))
       \<and> (Map_has (loaderFunctions st) (href (entry_target en)) \<longrightarrow>
            (\<exists>pri. on_intersecting e en st =
               prefetch e (st\<lparr>loaderFunctions :=
                  Map_delete (loaderFunctions st) (href (entry_target en))\<rparr>)
                 (href (entry_target en)) pri))
       \<and> \<not> Map_has (loaderFunctions (on_intersecting e en st)) (href (entry_target en))
       \<and> (list_all (\<lambda>ev. \<not> is_pass ev) later \<longrightarrow>
            dispatches_for (run later st) u
              \<le> dispatches_for st u + (if Map_has (loaderFunctions st) u then 1 else 0))
       \<and> (list_all (\<lambda>x. isIntersecting x \<longrightarrow>
              \<not> Map_has (loaderFunctions st) (href (entry_target x))) es \<longrightarrow>
            observer_callback e st es = st)
       \<and> observer_callback e' (observer_callback e st es) es = observer_callback e st es"
proof -
  have ok: "registry_ok (loaderFunctions st)"
    using assms reachable_ok by simp
  have 1: "distinct (map fst (loaderFunctions st))"
    using ok by (simp add: registry_ok_def)
  have 2: "Map_has (loaderFunctions st) (href (entry_target en)) \<longrightarrow>
            (\<exists>pri. on_intersecting e en st =
               prefetch e (st\<lparr>loaderFunctions :=
                  Map_delete (loaderFunctions st) (href (entry_target en))\<rparr>)
                 (href (entry_target en)) pri)"
    by (cases rule: on_intersecting_cases [OF ok, of en e]) auto
  have 3: "\<not> Map_has (loaderFunctions (on_intersecting e en st)) (href (entry_target en))"
    by (rule on_intersecting_consumes [OF ok])
  have 4: "list_all (\<lambda>ev. \<not> is_pass ev) later \<longrightarrow>
            dispatches_for (run later st) u
              \<le> dispatches_for st u + (if Map_has (loaderFunctions st) u then 1 else 0)"
  proof
    assume "list_all (\<lambda>ev. \<not> is_pass ev) later"
    from run_budget [OF ok this, of u]
    show "dispatches_for (run later st) u
              \<le> dispatches_for st u + (if Map_has (loaderFunctions st) u then 1 else 0)"
      by (simp add: pending_for_def)
  qed
  have 5: "list_all (\<lambda>x. isIntersecting x \<longrightarrow>
              \<not> Map_has (loaderFunctions st) (href (entry_target x))) es \<longrightarrow>
            observer_callback e st es = st"
  proof
    assume "list_all (\<lambda>x. isIntersecting x \<longrightarrow>
              \<not> Map_has (loaderFunctions st) (href (entry_target x))) es"
    then have "list_all (\<lambda>en. \<not> Map_has (loaderFunctions st) (href (entry_target en)))
        (filter isIntersecting es)"
      by (simp add: list_all_iff)
    then show "observer_callback e st es = st"
      by (simp add: observer_callback_def fold_on_intersecting_absent)
  qed
  have 6: "observer_callback e' (observer_callback e st es) es = observer_callback e st es"
    by (rule observer_callback_again [OF ok])
  from 1 2 3 4 5 6 show ?thesis by blast
qed

theorem loader_registry_consumption_witness:
  "map fst (loaderFunctions registered) = [''/a'', ''/b'']
   \<and> distinct (map fst (loaderFunctions registered))
   \<and> \<not> Map_has (loaderFunctions (on_intersecting page_env seen_a registered)) ''/a''
   \<and> dispatched (on_intersecting page_env seen_a registered) = [(''/a'', ''low'')]
   \<and> dispatches_for
        (run [Notify page_env [seen_a, seen_a], Settle 0, Notify page_env [seen_a]] registered) ''/a''
        \<le> 1
   \<and> observer_callback page_env
        (run [Notify page_env [seen_a]] registered) [seen_a]
        = run [Notify page_env [seen_a]] registered"
proof -
  have r: "run [Notify page_env [seen_a]] registered
             = run [Pass page_env (merge_options no_options), Notify page_env [seen_a]]
                 (page_init page_env)"
    by (simp add: registered_def run_def)
  have h1: "Map_has (loaderFunctions registered) (href (entry_target seen_a))"
    by (simp add: registered_eval seen_a_def link_a_def)
  have h2: "list_all (\<lambda>ev. \<not> is_pass ev)
      [Notify page_env [seen_a, seen_a], Settle 0, Notify page_env [seen_a]]"
    by simp
  have h3: "list_all (\<lambda>en. isIntersecting en \<longrightarrow>
      \<not> Map_has (loaderFunctions (run [Notify page_env [seen_a]] registered))
          (href (entry_target en))) [seen_a]"
    by (simp add: run_def observer_callback_def on_intersecting_def registered_eval seen_a_def
        link_a_def)
  have h4: "href (entry_target seen_a) = ''/a''" by (simp add: seen_a_def link_a_def)
  have h5: "dispatches_for registered ''/a'' = 0"
    by (simp add: dispatches_for_def registered_eval)
  have h6: "Map_get (loaderFunctions registered) ''/a'' = Some (Loader ''/a'' ''low'')"
    by (simp add: registered_eval)
  from loader_registry_consumption [OF registered_def, of seen_a page_env
      "[Notify page_env [seen_a, seen_a], Settle 0, Notify page_env [seen_a]]" "''/a''"]
    loader_registry_consumption [OF r, of _ _ _ _ "[seen_a]" page_env]
    h1 h2 h3 h4 h5 h6
  show ?thesis
    by (simp add: registered_eval on_intersecting_def)
qed

text \<open>
  C8 (an explicit list of URLs). When the caller's options hold \<^verbatim>\<open>urls\<close>, the callback
  handed to \<^verbatim>\<open>timeoutFn\<close> calls \<^verbatim>\<open>prefetch\<close> once for each element of the list, in order,
  with the configured priority (\<^verbatim>\<open>low\<close> when none is given), so a URL is dispatched as often
  as it occurs in the list. It observes no element and registers no loader function, and
  neither \<^verbatim>\<open>el\<close> nor the anchors the page holds make any difference to the result.
\<close>

theorem explicit_urls_bypass:
  assumes "given_urls g = Some us"
    and "pri = (case given_priority g of None \<Rightarrow> ''low'' | Some p \<Rightarrow> p)"
  shows "dispatched (fst (quicklink g) e st) = dispatched st @ map (\<lambda>u. (u, pri)) us
       \<and> dispatches_for (fst (quicklink g) e st) u = dispatches_for st u + count_list us u
       \<and> observed (fst (quicklink g) e st) = observed st
       \<and> loaderFunctions (fst (quicklink g) e st) = loaderFunctions st
       \<and> fst (quicklink (g\<lparr>given_el := s\<rparr>)) (e\<lparr>anchors_in := f\<rparr>) st = fst (quicklink g) e st"
proof -
  have q: "fst (quicklink (g\<lparr>given_el := s\<rparr>)) (e\<lparr>anchors_in := f\<rparr>) st
             = fold (\<lambda>u s. prefetch e s u pri) us st"
    and q': "fst (quicklink g) e st = fold (\<lambda>u s. prefetch e s u pri) us st"
    using assms by (simp_all add: quicklink_def Let_def scheduling_pass_def merge_options_def)
  show ?thesis
    unfolding q q' by (simp add: dispatches_for_def count_dispatches)
qed

theorem explicit_urls_bypass_witness:
  "dispatched (fst (quicklink urls_given) page_env (page_init page_env))
     = [(''/a'', ''low''), (''/b'', ''low'')]
   \<and> dispatches_for (fst (quicklink urls_given) page_env (page_init page_env)) ''/a'' = 1
   \<and> observed (fst (quicklink urls_given) page_env (page_init page_env)) = []
   \<and> loaderFunctions (fst (quicklink urls_given) page_env (page_init page_env)) = []
   \<and> map href (anchors_in page_env (Subtree 7)) = [''/a'', ''/a'', ''/b'']"
proof -
  have h1: "given_urls urls_given = Some [''/a'', ''/b'']"
    by (simp add: urls_given_def)
  have h2: "''low'' = (case given_priority urls_given of None \<Rightarrow> ''low'' | Some p \<Rightarrow> p)"
    by (simp add: urls_given_def no_options_def)
  have h3: "dispatched (page_init page_env) = []" "observed (page_init page_env) = []"
    "loaderFunctions (page_init page_env) = []" "dispatches_for (page_init page_env) ''/a'' = 0"
    by (simp_all add: page_init_def dispatches_for_def)
  have h4: "map href (anchors_in page_env (Subtree 7)) = [''/a'', ''/a'', ''/b'']"
    by (simp add: page_env_def link_a_def link_b_def sample_env_def)
  from explicit_urls_bypass [OF h1 h2, of page_env "page_init page_env" "''/a''"] h3 h4
  show ?thesis by simp
qed

end
